theory Spec2Isabelle
  imports Complex_Main "HOL-Library.Sublist" "HOL-Library.Product_Lexorder"
begin

section \<open>Strings of the annotation tool\<close>

text \<open>
  Texts and names are strings of ASCII characters; an offset counts characters. The three
  character classes below are the ones the source relies on through \<^verbatim>\<open>re\<close> and
  \<^verbatim>\<open>str\<close>, restricted to ASCII: a character above 127 is neither a word character nor
  white space, and lowering leaves it alone.
\<close>

type_synonym span = "nat \<times> nat"

text \<open>The regular expression class \<^verbatim>\<open>\w\<close>: letters, digits and the underscore.\<close>

definition is_word_char :: "char \<Rightarrow> bool" where
  "is_word_char c =
     (let n = of_char c :: nat
      in (48 \<le> n \<and> n \<le> 57) \<or> (65 \<le> n \<and> n \<le> 90) \<or> n = 95 \<or> (97 \<le> n \<and> n \<le> 122))"

text \<open>What \<^verbatim>\<open>str.split()\<close> counts as white space: tab, the line breaks, the four
  separators 28 to 31 and the blank.\<close>

definition is_space_char :: "char \<Rightarrow> bool" where
  "is_space_char c =
     (let n = of_char c :: nat
      in (9 \<le> n \<and> n \<le> 13) \<or> (28 \<le> n \<and> n \<le> 32))"

definition lower_char :: "char \<Rightarrow> char" where
  "lower_char c =
     (let n = of_char c :: nat
      in if 65 \<le> n \<and> n \<le> 90 then char_of (n + 32) else c)"

text \<open>\<^verbatim>\<open>s.lower()\<close>\<close>

definition str_lower :: "string \<Rightarrow> string" where
  "str_lower s = map lower_char s"

text \<open>\<^verbatim>\<open>text[a:b]\<close> for offsets that are not negative: an empty string when \<open>b \<le> a\<close>,
  cut at the end of the text otherwise.\<close>

definition py_slice :: "string \<Rightarrow> nat \<Rightarrow> nat \<Rightarrow> string" where
  "py_slice text a b = take (b - a) (drop a text)"

text \<open>\<^verbatim>\<open>s.split()\<close>: the maximal runs of characters that are not white space. The first
  argument is the run read so far.\<close>

fun str_split_from :: "string \<Rightarrow> string \<Rightarrow> string list" where
  "str_split_from cur [] = (if cur = [] then [] else [cur])"
| "str_split_from cur (c # cs) =
     (if is_space_char c
      then (if cur = [] then str_split_from [] cs else cur # str_split_from [] cs)
      else str_split_from (cur @ [c]) cs)"

definition str_split :: "string \<Rightarrow> string list" where
  "str_split s = str_split_from [] s"

text \<open>\<^verbatim>\<open>re.finditer(r'\b\w+\b', text)\<close>, each match as its (start, end): scanning from
  the left, a word character starts a match that takes the whole run of word characters
  (the run begins and ends at a word boundary), and the scan goes on behind it.
  \<open>re_words_from i s\<close> scans the rest \<open>s\<close> of the text that begins at offset \<open>i\<close>.\<close>

function re_words_from :: "nat \<Rightarrow> string \<Rightarrow> span list" where
  "re_words_from i [] = []"
| "re_words_from i (c # cs) =
     (if is_word_char c
      then (i, i + length (takeWhile is_word_char (c # cs)))
             # re_words_from (i + length (takeWhile is_word_char (c # cs)))
                 (dropWhile is_word_char (c # cs))
      else re_words_from (i + 1) cs)"
  by pat_completeness auto
termination
proof (relation "measure (\<lambda>(i, s). length s)")
  show "wf (measure (\<lambda>(i, s). length s))" by simp
next
  fix i :: nat and c :: char and cs :: string
  assume "is_word_char c"
  then have "length (dropWhile is_word_char (c # cs)) \<le> length cs"
    by (simp add: length_dropWhile_le)
  then show "((i + length (takeWhile is_word_char (c # cs)), dropWhile is_word_char (c # cs)),
              (i, c # cs)) \<in> measure (\<lambda>(i, s). length s)"
    by simp
next
  fix i :: nat and c :: char and cs :: string
  show "((i + 1, cs), (i, c # cs)) \<in> measure (\<lambda>(i, s). length s)" by simp
qed

definition re_finditer :: "string \<Rightarrow> span list" where
  "re_finditer text = re_words_from 0 text"

section \<open>The name highlighter\<close>

definition STOPWORDS :: "string set" where
  "STOPWORDS = set [''the'', ''a'', ''an'', ''and'', ''or'', ''but'', ''in'', ''on'', ''at'', ''to'', ''for'',
     ''of'', ''with'', ''by'', ''from'', ''as'', ''is'', ''was'', ''are'', ''were'', ''been'',
     ''be'', ''have'', ''has'', ''had'', ''do'', ''does'', ''did'', ''will'', ''would'',
     ''should'', ''could'', ''may'', ''might'', ''must'', ''can'', ''this'', ''that'',
     ''these'', ''those'', ''i'', ''you'', ''he'', ''she'', ''it'', ''we'', ''they'', ''clear'', ''non'']"

text \<open>
  \<^verbatim>\<open>fuzz.ratio\<close> belongs to the rapidfuzz library, not to this program, and returns a
  floating point number. The highlighter takes it as a parameter: a function from two
  strings to a score, a rational number (every finite float is one). Python compares the
  score with the integer threshold exactly.
\<close>

type_synonym ratio_fn = "string \<Rightarrow> string \<Rightarrow> rat"

text \<open>The loop over \<^verbatim>\<open>names_to_check\<close>: it leaves at the first name whose score reaches
  the threshold, and the result says whether it appended the word's position.\<close>

fun check_names :: "ratio_fn \<Rightarrow> string \<Rightarrow> string list \<Rightarrow> int \<Rightarrow> bool" where
  "check_names ratio word [] threshold = False"
| "check_names ratio word (name # names) threshold =
     (if of_int threshold \<le> ratio (str_lower word) (str_lower name) then True
      else check_names ratio word names threshold)"

text \<open>The loop over the matches of the regular expression; the result is \<^verbatim>\<open>positions\<close>.\<close>

fun find_positions ::
  "ratio_fn \<Rightarrow> string \<Rightarrow> string \<Rightarrow> string list \<Rightarrow> int \<Rightarrow> span list \<Rightarrow> span list" where
  "find_positions ratio text speaker_name name_parts threshold [] = []"
| "find_positions ratio text speaker_name name_parts threshold ((s, e) # matches) =
     (if str_lower (py_slice text s e) \<notin> STOPWORDS
      then (if check_names ratio (py_slice text s e) (speaker_name # name_parts) threshold
            then (s, e) # find_positions ratio text speaker_name name_parts threshold matches
            else find_positions ratio text speaker_name name_parts threshold matches)
      else find_positions ratio text speaker_name name_parts threshold matches)"

definition mark_open :: string where
  "mark_open = ''<mark style='' @ [CHR 0x22]
     @ ''background-color: #FFD700; padding: 2px 4px; border-radius: 3px;'' @ [CHR 0x22] @ ''>''"

definition mark_close :: string where
  "mark_close = ''</mark>''"

text \<open>The loop that builds \<^verbatim>\<open>result\<close>, the list of strings joined at the end;
  the second argument is \<^verbatim>\<open>last_end\<close>.\<close>

fun build_result :: "string \<Rightarrow> nat \<Rightarrow> span list \<Rightarrow> string list" where
  "build_result text last_end [] = [drop last_end text]"
| "build_result text last_end ((s, e) # positions) =
     py_slice text last_end s # (mark_open @ py_slice text s e @ mark_close)
       # build_result text e positions"

text \<open>The body of \<^verbatim>\<open>highlight_speaker_name\<close> behind its guard, where both arguments
  are strings. \<^verbatim>\<open>sorted(set(positions))\<close> sorts the pairs without duplicates in the
  lexicographic order of tuples.\<close>

definition highlight_text :: "ratio_fn \<Rightarrow> string \<Rightarrow> string \<Rightarrow> int \<Rightarrow> string" where
  "highlight_text ratio text speaker_name threshold =
     (let name_parts = str_split speaker_name;
          positions = find_positions ratio text speaker_name name_parts threshold
                        (re_finditer text)
      in if positions = [] then text
         else concat (build_result text 0 (sort (remdups positions))))"

text \<open>An absent argument is \<^verbatim>\<open>None\<close>. \<^verbatim>\<open>not x\<close> holds of \<^verbatim>\<open>None\<close> and of the
  empty string. Behind the guard the source calls \<^verbatim>\<open>speaker_name.split()\<close>, which
  raises AttributeError on \<^verbatim>\<open>None\<close>, and \<^verbatim>\<open>re.findall\<close> on the text, which raises
  TypeError on \<^verbatim>\<open>None\<close>.\<close>

datatype py_error = TypeError | AttributeError

fun falsy :: "string option \<Rightarrow> bool" where
  "falsy None = True"
| "falsy (Some s) = (s = [])"

definition highlight_speaker_name ::
  "ratio_fn \<Rightarrow> string option \<Rightarrow> string option \<Rightarrow> int \<Rightarrow> py_error + string option" where
  "highlight_speaker_name ratio text speaker_name threshold =
     (if falsy text \<or> falsy speaker_name then Inr text
      else (case speaker_name of
              None \<Rightarrow> Inl AttributeError
            | Some name \<Rightarrow>
                (case text of
                   None \<Rightarrow> Inl TypeError
                 | Some txt \<Rightarrow> Inr (Some (highlight_text ratio txt name threshold)))))"

text \<open>The spans that a call wraps in markers: none when the guard returns the text, the
  sorted positions otherwise.\<close>

definition highlighted_spans :: "ratio_fn \<Rightarrow> string \<Rightarrow> string \<Rightarrow> int \<Rightarrow> span list" where
  "highlighted_spans ratio text speaker_name threshold =
     (if text = [] \<or> speaker_name = [] then []
      else sort (remdups (find_positions ratio text speaker_name (str_split speaker_name)
                            threshold (re_finditer text))))"

section \<open>The similarity score\<close>

text \<open>The length of a longest common subsequence of two strings.\<close>

fun lcs :: "string \<Rightarrow> string \<Rightarrow> nat" where
  "lcs [] ys = 0"
| "lcs (x # xs) [] = 0"
| "lcs (x # xs) (y # ys) =
     (if x = y then Suc (lcs xs ys) else max (lcs xs (y # ys)) (lcs (x # xs) ys))"

text \<open>
  Modelled from the spec: the normalised similarity ratio between 0 and 100 of
  \<^verbatim>\<open>fuzz.ratio\<close>, a function of the rapidfuzz library that is not among the source
  files. It is the ratio that rapidfuzz documents, the normalised Indel similarity, in
  exact arithmetic: the Indel distance of two strings is the sum of their lengths less
  twice the length of a longest common subsequence; the distance is divided by the sum of
  the lengths (0 when both strings are empty), taken from 1 and multiplied by 100. It is
  the instance of the parameter \<open>ratio\<close> at which the examples are run.
\<close>

definition fuzz_ratio :: ratio_fn where
  "fuzz_ratio s1 s2 =
     (let maximum = length s1 + length s2
      in if maximum = 0 then 100
         else (1 - (of_nat maximum - 2 * of_nat (lcs s1 s2)) / of_nat maximum) * 100)"

text \<open>The same length by rows: \<open>lcs_rows xs ys\<close> lists the length for \<open>xs\<close> and every
  suffix of \<open>ys\<close>, the longest suffix first.\<close>

definition lcs_cell :: "char \<Rightarrow> char \<Rightarrow> nat list \<Rightarrow> nat list \<Rightarrow> nat list" where
  "lcs_cell x y prev r =
     (if x = y then Suc (hd (tl prev)) else max (hd prev) (hd r)) # r"

fun lcs_step :: "char \<Rightarrow> string \<Rightarrow> nat list \<Rightarrow> nat list" where
  "lcs_step x [] prev = [0]"
| "lcs_step x (y # ys) prev = lcs_cell x y prev (lcs_step x ys (tl prev))"

fun lcs_rows :: "string \<Rightarrow> string \<Rightarrow> nat list" where
  "lcs_rows [] ys = replicate (Suc (length ys)) 0"
| "lcs_rows (x # xs) ys = lcs_step x ys (lcs_rows xs ys)"

fun lcs_suffixes :: "string \<Rightarrow> string \<Rightarrow> nat list" where
  "lcs_suffixes xs [] = [lcs xs []]"
| "lcs_suffixes xs (y # ys) = lcs xs (y # ys) # lcs_suffixes xs ys"

section \<open>Reading the markers back\<close>

text \<open>
  Stripping the markers from an output: reading from the left, an opening or a closing
  marker is dropped and every other character is kept.
\<close>

function strip_marks :: "string \<Rightarrow> string" where
  "strip_marks [] = []"
| "strip_marks (c # cs) =
     (if prefix mark_open (c # cs) then strip_marks (drop (length mark_open) (c # cs))
      else if prefix mark_close (c # cs) then strip_marks (drop (length mark_close) (c # cs))
      else c # strip_marks cs)"
  by pat_completeness auto
termination
  by (relation "measure length") (simp_all add: mark_open_def mark_close_def)

text \<open>
  The marked regions of an output in the order in which they appear, each as its
  (start, end) in the stripped string. \<open>i\<close> counts the kept characters read so far and
  \<open>opened\<close> holds the start of the region being read, if a marker is open.
\<close>

function marked_spans_from :: "nat \<Rightarrow> nat option \<Rightarrow> string \<Rightarrow> span list" where
  "marked_spans_from i opened [] = []"
| "marked_spans_from i opened (c # cs) =
     (if prefix mark_open (c # cs)
      then marked_spans_from i (Some i) (drop (length mark_open) (c # cs))
      else if prefix mark_close (c # cs)
      then (case opened of
              Some s \<Rightarrow> (s, i) # marked_spans_from i None (drop (length mark_close) (c # cs))
            | None \<Rightarrow> marked_spans_from i None (drop (length mark_close) (c # cs)))
      else marked_spans_from (Suc i) opened cs)"
  by pat_completeness auto
termination
  by (relation "measure (\<lambda>(i, opened, s). length s)") (simp_all add: mark_open_def mark_close_def)

definition marked_spans :: "string \<Rightarrow> span list" where
  "marked_spans out = marked_spans_from 0 None out"


section \<open>The feedback store\<close>

text \<open>
  The store is the file \<^verbatim>\<open>feedback_data.json\<close>: absent, or a dictionary from row keys
  to rows, a row being a dictionary from field names to values. The values the tool
  writes are booleans and strings. Every function takes the file and the ones that write
  return the new file.
\<close>

datatype jval = JBool bool | JStr string

type_synonym feedback_row = "string \<rightharpoonup> jval"
type_synonym feedback_data = "string \<rightharpoonup> feedback_row"
type_synonym feedback_file = "feedback_data option"

definition load_feedback :: "feedback_file \<Rightarrow> feedback_data" where
  "load_feedback file = (case file of None \<Rightarrow> Map.empty | Some d \<Rightarrow> d)"

definition save_feedback :: "feedback_data \<Rightarrow> feedback_file" where
  "save_feedback feedback_data = Some feedback_data"

text \<open>The decimal form of an integer, as an f-string prints it.\<close>

definition digit_char :: "nat \<Rightarrow> char" where
  "digit_char d = char_of (48 + d)"

function str_nat :: "nat \<Rightarrow> string" where
  "str_nat n = (if n < 10 then [digit_char n] else str_nat (n div 10) @ [digit_char (n mod 10)])"
  by pat_completeness auto
termination
  by (relation "measure id") simp_all

declare str_nat.simps [simp del]

definition str_int :: "int \<Rightarrow> string" where
  "str_int i = (if i < 0 then CHR ''-'' # str_nat (nat (- i)) else str_nat (nat i))"

definition row_key :: "int \<Rightarrow> string" where
  "row_key row_index = ''row_'' @ str_int row_index"

definition comment_key :: "string \<Rightarrow> string" where
  "comment_key summary_type = summary_type @ ''_comment''"

definition record_feedback ::
  "feedback_file \<Rightarrow> int \<Rightarrow> string \<Rightarrow> string \<Rightarrow> string option \<Rightarrow> feedback_file" where
  "record_feedback file row_index summary_type feedback_value comment =
     (let feedback_data = load_feedback file;
          key = row_key row_index;
          row = (case feedback_data key of None \<Rightarrow> Map.empty | Some r \<Rightarrow> r);
          row = row(summary_type \<mapsto> JBool (feedback_value = ''up''));
          row = (case comment of
                   None \<Rightarrow> row
                 | Some c \<Rightarrow> row(comment_key summary_type \<mapsto> JStr c))
      in save_feedback (feedback_data(key \<mapsto> row)))"

definition get_feedback :: "feedback_file \<Rightarrow> int \<Rightarrow> string \<Rightarrow> jval option" where
  "get_feedback file row_index summary_type =
     (case load_feedback file (row_key row_index) of
        None \<Rightarrow> None
      | Some row \<Rightarrow> row summary_type)"

definition get_comment :: "feedback_file \<Rightarrow> int \<Rightarrow> string \<Rightarrow> jval" where
  "get_comment file row_index summary_type =
     (case load_feedback file (row_key row_index) of
        None \<Rightarrow> JStr []
      | Some row \<Rightarrow>
          (case row (comment_key summary_type) of None \<Rightarrow> JStr [] | Some v \<Rightarrow> v))"

text \<open>
  What \<^verbatim>\<open>main\<close> does with the text of a comment box, the same for each of the four
  summary types: \<^verbatim>\<open>current_feedback\<close> was read with \<^verbatim>\<open>get_feedback\<close> before, and
  the comment is saved when it differs from the stored one.
\<close>

definition main_save_comment :: "feedback_file \<Rightarrow> int \<Rightarrow> string \<Rightarrow> string \<Rightarrow> feedback_file" where
  "main_save_comment file current_index summary_type entered =
     (let current_feedback = get_feedback file current_index summary_type
      in if JStr entered \<noteq> get_comment file current_index summary_type
         then record_feedback file current_index summary_type
                (if current_feedback = Some (JBool True) then ''up''
                 else if current_feedback = Some (JBool False) then ''down'' else ''up'')
                (Some entered)
         else file)"

section \<open>Auxiliary predicates\<close>

text \<open>\<open>ordered_spans lo hi ps\<close>: the spans of \<open>ps\<close> are not empty, lie between \<open>lo\<close> and
  \<open>hi\<close>, and each begins where the one before it has ended or later.\<close>

fun ordered_spans :: "nat \<Rightarrow> nat \<Rightarrow> span list \<Rightarrow> bool" where
  "ordered_spans lo hi [] = (lo \<le> hi)"
| "ordered_spans lo hi ((s, e) # ps) = (lo \<le> s \<and> s < e \<and> ordered_spans e hi ps)"

text \<open>\<open>no_marker_starts p q\<close>: in \<open>p @ q\<close> no marker begins at a position inside \<open>p\<close>.\<close>

fun no_marker_starts :: "string \<Rightarrow> string \<Rightarrow> bool" where
  "no_marker_starts [] q = True"
| "no_marker_starts (c # p) q =
     (\<not> prefix mark_open (c # p @ q) \<and> \<not> prefix mark_close (c # p @ q) \<and> no_marker_starts p q)"

section \<open>Identity on empty and absent arguments\<close>

text \<open>
  Claim C4. Whatever the name and the threshold, an empty text and an absent text are
  returned as they are; whatever the text and the threshold, an empty name and an absent
  name return the text as it is.
\<close>

theorem highlight_identity_on_empty:
  "highlight_speaker_name ratio (Some []) speaker_name threshold = Inr (Some [])
   \<and> highlight_speaker_name ratio None speaker_name threshold = Inr None
   \<and> highlight_speaker_name ratio text (Some []) threshold = Inr text
   \<and> highlight_speaker_name ratio text None threshold = Inr text"
  by (simp add: highlight_speaker_name_def)

theorem highlight_identity_on_empty_witness:
  "highlight_speaker_name fuzz_ratio (Some []) (Some ''Jane Doe'') 80 = Inr (Some [])
   \<and> highlight_speaker_name fuzz_ratio None (Some ''Jane Doe'') 80 = Inr None
   \<and> highlight_speaker_name fuzz_ratio (Some ''Jane Doe was here'') (Some []) 80
       = Inr (Some ''Jane Doe was here'')
   \<and> highlight_speaker_name fuzz_ratio (Some ''Jane Doe was here'') None 80
       = Inr (Some ''Jane Doe was here'')"
  using highlight_identity_on_empty [of fuzz_ratio "Some ''Jane Doe''" 80 "Some ''Jane Doe was here''"]
  by simp

section \<open>Totality\<close>

text \<open>
  Claim C6. For every text and every name, a string or absent, and every integer
  threshold, inside or outside the range from 0 to 100, the call returns a value: neither
  of the two errors that an absent argument could raise behind the guard is reached.
\<close>

theorem highlight_total:
  "\<exists>r. highlight_speaker_name ratio text speaker_name threshold = Inr r"
  by (cases "text"; cases speaker_name) (simp_all add: highlight_speaker_name_def)

theorem highlight_total_witness:
  "(\<exists>r. highlight_speaker_name fuzz_ratio None None (- 5) = Inr r)
   \<and> (\<exists>r. highlight_speaker_name fuzz_ratio (Some ''Jane Doe was here'') (Some ''Jane Doe'') 250 = Inr r)"
  using highlight_total [of fuzz_ratio None None "- 5"]
    highlight_total [of fuzz_ratio "Some ''Jane Doe was here''" "Some ''Jane Doe''" 250]
  by simp

section \<open>The positions found\<close>

text \<open>The two loops of the highlighter as a filter over the words of the text.\<close>

lemma check_names_iff:
  "check_names ratio word names threshold
     = (\<exists>name \<in> set names. of_int threshold \<le> ratio (str_lower word) (str_lower name))"
  by (induction names) auto

lemma find_positions_filter:
  "find_positions ratio text speaker_name name_parts threshold matches
     = filter (\<lambda>(s, e). str_lower (py_slice text s e) \<notin> STOPWORDS
          \<and> check_names ratio (py_slice text s e) (speaker_name # name_parts) threshold) matches"
  by (induction ratio "text" speaker_name name_parts threshold matches rule: find_positions.induct)
     (simp_all del: check_names.simps)

lemma set_highlighted_spans:
  "set (highlighted_spans ratio text speaker_name threshold)
     = (if text = [] \<or> speaker_name = [] then {}
        else {(s, e). (s, e) \<in> set (re_finditer text)
                \<and> str_lower (py_slice text s e) \<notin> STOPWORDS
                \<and> (\<exists>name \<in> set (speaker_name # str_split speaker_name).
                      of_int threshold \<le> ratio (str_lower (py_slice text s e)) (str_lower name))})"
  by (auto simp del: check_names.simps simp: highlighted_spans_def find_positions_filter check_names_iff)

lemma sort_remdups_Nil_iff: "sort (remdups xs) = [] \<longleftrightarrow> xs = []"
  by (metis set_empty set_remdups set_sort)

lemma highlight_by_spans:
  assumes "text \<noteq> []" and "speaker_name \<noteq> []"
  shows "highlight_speaker_name ratio (Some text) (Some speaker_name) threshold
           = Inr (Some (concat (build_result text 0
                   (highlighted_spans ratio text speaker_name threshold))))"
  using assms
  by (simp add: highlight_speaker_name_def highlight_text_def highlighted_spans_def Let_def)

lemma re_finditer_Nil: "re_finditer [] = []"
  by (simp add: re_finditer_def)

lemma str_split_Nil: "str_split [] = []"
  by (simp add: str_split_def)

section \<open>The score of equal strings\<close>

text \<open>The rows compute the length of a longest common subsequence, and two equal strings
  score 100.\<close>

lemma hd_lcs_suffixes: "hd (lcs_suffixes xs ys) = lcs xs ys"
  by (cases ys) simp_all

lemma lcs_step_suffixes: "lcs_step x ys (lcs_suffixes xs ys) = lcs_suffixes (x # xs) ys"
  by (induction ys) (simp_all add: lcs_cell_def hd_lcs_suffixes)

lemma lcs_suffixes_Nil: "lcs_suffixes [] ys = replicate (Suc (length ys)) 0"
  by (induction ys) simp_all

lemma lcs_rows_suffixes: "lcs_rows xs ys = lcs_suffixes xs ys"
  by (induction xs) (simp_all add: lcs_suffixes_Nil lcs_step_suffixes)

lemma lcs_by_rows [code]: "lcs xs ys = hd (lcs_rows xs ys)"
  by (simp add: lcs_rows_suffixes hd_lcs_suffixes)

lemma lcs_same: "lcs xs xs = length xs"
  by (induction xs) simp_all

lemma fuzz_ratio_same: "fuzz_ratio s s = 100"
  by (simp add: fuzz_ratio_def lcs_same Let_def)

section \<open>The words of a text\<close>

text \<open>The matches of the regular expression lie in the text from left to right, apart from
  each other, and consist of word characters.\<close>

lemma ordered_spans_weaken: "ordered_spans lo hi ps \<Longrightarrow> lo' \<le> lo \<Longrightarrow> ordered_spans lo' hi ps"
  by (cases ps) auto

lemma ordered_spans_filter: "ordered_spans lo hi ps \<Longrightarrow> ordered_spans lo hi (filter P ps)"
proof (induction ps arbitrary: lo)
  case Nil
  then show ?case by simp
next
  case (Cons p ps)
  obtain s e where p: "p = (s, e)" by (cases p)
  from Cons.prems p have le: "lo \<le> s" "s < e" and rest: "ordered_spans e hi ps" by simp_all
  from Cons.IH [OF rest] have f: "ordered_spans e hi (filter P ps)" .
  show ?case
  proof (cases "P p")
    case True
    with p le f show ?thesis by simp
  next
    case False
    from le have "lo \<le> e" by simp
    with f have "ordered_spans lo hi (filter P ps)" by (rule ordered_spans_weaken)
    with False show ?thesis by simp
  qed
qed

lemma ordered_re_words_from: "ordered_spans i (i + length s) (re_words_from i s)"
proof (induction i s rule: re_words_from.induct)
  case (1 i)
  show ?case by simp
next
  case (2 i c cs)
  show ?case
  proof (cases "is_word_char c")
    case True
    let ?n = "length (takeWhile is_word_char (c # cs))"
    have "length (takeWhile is_word_char (c # cs) @ dropWhile is_word_char (c # cs)) = length (c # cs)"
      by (simp only: takeWhile_dropWhile_id)
    then have len: "?n + length (dropWhile is_word_char (c # cs)) = length (c # cs)"
      by (simp only: length_append)
    from True have pos: "0 < ?n" by simp
    from 2(1) [OF True] len
    have "ordered_spans (i + ?n) (i + length (c # cs))
            (re_words_from (i + ?n) (dropWhile is_word_char (c # cs)))"
      by (simp only: add.assoc)
    with True pos show ?thesis by simp
  next
    case False
    from 2(2) [OF False] have "ordered_spans (i + 1) (i + length (c # cs)) (re_words_from (i + 1) cs)"
      by simp
    then have "ordered_spans i (i + length (c # cs)) (re_words_from (i + 1) cs)"
      by (rule ordered_spans_weaken) simp
    with False show ?thesis by simp
  qed
qed

lemma re_words_from_word_chars:
  "(a, b) \<in> set (re_words_from i s) \<Longrightarrow>
     i \<le> a \<and> (\<forall>c \<in> set (take (b - a) (drop (a - i) s)). is_word_char c)"
proof (induction i s rule: re_words_from.induct)
  case (1 i)
  then show ?case by simp
next
  case (2 i c cs)
  show ?case
  proof (cases "is_word_char c")
    case True
    define n where "n = length (takeWhile is_word_char (c # cs))"
    have unfold: "re_words_from i (c # cs)
                    = (i, i + n) # re_words_from (i + n) (dropWhile is_word_char (c # cs))"
      unfolding n_def using True by (simp only: re_words_from.simps if_True)
    from 2(3) unfold
    consider (first) "a = i" "b = i + n"
      | (later) "(a, b) \<in> set (re_words_from (i + n) (dropWhile is_word_char (c # cs)))"
      by (auto simp only: set_simps insert_iff prod.inject)
    then show ?thesis
    proof cases
      case first
      have "take n (c # cs) = takeWhile is_word_char (c # cs)"
        unfolding n_def by (rule takeWhile_eq_take [symmetric])
      moreover have "\<forall>x \<in> set (takeWhile is_word_char (c # cs)). is_word_char x"
        by (blast dest: set_takeWhileD)
      ultimately have "\<forall>x \<in> set (take n (c # cs)). is_word_char x"
        by (simp only:)
      with first show ?thesis by simp
    next
      case later
      from 2(1) [OF True later [unfolded n_def]]
      have le: "i + n \<le> a"
        and w: "\<forall>x \<in> set (take (b - a) (drop (a - (i + n)) (dropWhile is_word_char (c # cs)))). is_word_char x"
        unfolding n_def by blast+
      have "dropWhile is_word_char (c # cs) = drop n (c # cs)"
        unfolding n_def by (rule dropWhile_eq_drop)
      then have "drop (a - (i + n)) (dropWhile is_word_char (c # cs))
                   = drop (a - (i + n) + n) (c # cs)"
        by (simp only: drop_drop)
      moreover from le have "a - (i + n) + n = a - i" by linarith
      ultimately have "drop (a - (i + n)) (dropWhile is_word_char (c # cs)) = drop (a - i) (c # cs)"
        by (simp only:)
      with w have "\<forall>x \<in> set (take (b - a) (drop (a - i) (c # cs))). is_word_char x"
        by (simp only:)
      moreover from le have "i \<le> a" by linarith
      ultimately show ?thesis by blast
    qed
  next
    case False
    then have "re_words_from i (c # cs) = re_words_from (i + 1) cs"
      by (simp only: re_words_from.simps if_False)
    with 2(3) have mem: "(a, b) \<in> set (re_words_from (i + 1) cs)" by (simp only:)
    from 2(2) [OF False mem]
    have le: "i + 1 \<le> a" and w: "\<forall>x \<in> set (take (b - a) (drop (a - (i + 1)) cs)). is_word_char x"
      by blast+
    from le obtain k where k: "a - i = Suc k" "a - (i + 1) = k"
      by (cases "a - i") simp_all
    then have "drop (a - i) (c # cs) = drop (a - (i + 1)) cs"
      by (simp only: drop_Suc_Cons)
    with w have "\<forall>x \<in> set (take (b - a) (drop (a - i) (c # cs))). is_word_char x"
      by (simp only:)
    moreover from le have "i \<le> a" by linarith
    ultimately show ?thesis by blast
  qed
qed

lemma re_finditer_word_chars:
  "(s, e) \<in> set (re_finditer text) \<Longrightarrow> \<forall>c \<in> set (py_slice text s e). is_word_char c"
  using re_words_from_word_chars [of s e 0 "text"] by (simp add: re_finditer_def py_slice_def)

lemma ordered_re_finditer: "ordered_spans 0 (length text) (re_finditer text)"
  using ordered_re_words_from [of 0 "text"] by (simp add: re_finditer_def)

lemma ordered_spans_le: "ordered_spans lo hi ps \<Longrightarrow> lo \<le> hi"
proof (induction ps arbitrary: lo)
  case Nil
  then show ?case by simp
next
  case (Cons p ps)
  obtain s e where p: "p = (s, e)" by (cases p)
  from Cons.prems p have "lo \<le> s" "s < e" "ordered_spans e hi ps" by simp_all
  with Cons.IH [of e] show ?case by simp
qed

lemma ordered_spans_props:
  "ordered_spans lo hi ps \<Longrightarrow>
     sorted_wrt (\<lambda>p q. snd p \<le> fst q) ps
     \<and> (\<forall>p \<in> set ps. lo \<le> fst p \<and> fst p < snd p \<and> snd p \<le> hi)"
proof (induction ps arbitrary: lo)
  case Nil
  then show ?case by simp
next
  case (Cons p ps)
  obtain s e where p: "p = (s, e)" by (cases p)
  from Cons.prems p have le: "lo \<le> s" "s < e" and rest: "ordered_spans e hi ps" by simp_all
  from Cons.IH [OF rest]
  have srt: "sorted_wrt (\<lambda>p q. snd p \<le> fst q) ps"
    and each: "\<forall>q \<in> set ps. e \<le> fst q \<and> fst q < snd q \<and> snd q \<le> hi" by simp_all
  from ordered_spans_le [OF rest] have "e \<le> hi" .
  with p le srt each show ?case by auto
qed

lemma ordered_spans_strict: "ordered_spans lo hi ps \<Longrightarrow> sorted_wrt (<) ps"
proof -
  assume a: "ordered_spans lo hi ps"
  let ?R = "\<lambda>p q :: span. fst p < snd p \<and> snd p \<le> fst q"
  have "sorted_wrt ?R ps"
    using ordered_spans_props [OF a] by (induction ps) auto
  moreover have "\<And>p q. ?R p q \<Longrightarrow> p < q"
    by (auto simp: less_prod_def)
  ultimately show ?thesis
    by (rule sorted_wrt_mono_rel [rotated]) blast
qed

lemma sort_remdups_ordered: "ordered_spans lo hi ps \<Longrightarrow> sort (remdups ps) = ps"
proof -
  assume "ordered_spans lo hi ps"
  then have "sorted_wrt (<) ps" by (rule ordered_spans_strict)
  then have "sorted ps" "distinct ps" by (simp_all add: strict_sorted_iff)
  then show ?thesis by (simp add: distinct_remdups_id sorted_sort_id)
qed

lemma ordered_find_positions:
  "ordered_spans 0 (length text)
     (find_positions ratio text speaker_name name_parts threshold (re_finditer text))"
  unfolding find_positions_filter by (rule ordered_spans_filter) (rule ordered_re_finditer)

lemma highlighted_spans_positions:
  "highlighted_spans ratio text speaker_name threshold
     = (if text = [] \<or> speaker_name = [] then []
        else find_positions ratio text speaker_name (str_split speaker_name) threshold
               (re_finditer text))"
  by (simp add: highlighted_spans_def sort_remdups_ordered [OF ordered_find_positions])

lemma ordered_highlighted_spans:
  "ordered_spans 0 (length text) (highlighted_spans ratio text speaker_name threshold)"
  by (simp add: highlighted_spans_positions ordered_find_positions)

section \<open>Markers in an output\<close>

text \<open>Both markers begin with the character \<open><\<close> and hold no other. A stretch of text
  that holds no marker and is followed by a marker, or by nothing, is read as it is.\<close>

lemma mark_open_Cons: "\<exists>r. mark_open = CHR ''<'' # r \<and> CHR ''<'' \<notin> set r"
  by (simp add: mark_open_def)

lemma mark_close_Cons: "\<exists>r. mark_close = CHR ''<'' # r \<and> CHR ''<'' \<notin> set r"
  by (simp add: mark_close_def)

lemma open_not_prefix_close: "\<not> prefix mark_open (mark_close @ x)"
  by (simp add: mark_open_def mark_close_def)

lemma mark_open_nonempty: "mark_open \<noteq> []"
  by (simp add: mark_open_def)

lemma mark_close_nonempty: "mark_close \<noteq> []"
  by (simp add: mark_close_def)

lemma prefix_mark_hd:
  "prefix mark_open (c # s) \<Longrightarrow> c = CHR ''<''"
  "prefix mark_close (c # s) \<Longrightarrow> c = CHR ''<''"
  by (simp_all add: mark_open_def mark_close_def)

lemma strip_marks_open: "strip_marks (mark_open @ x) = strip_marks x"
proof (cases "mark_open @ x")
  case Nil
  with mark_open_nonempty show ?thesis by simp
next
  case (Cons c cs)
  have "prefix mark_open (c # cs)" by (simp add: Cons [symmetric])
  then have "strip_marks (c # cs) = strip_marks (drop (length mark_open) (c # cs))"
    by simp
  then show ?thesis by (simp add: Cons [symmetric])
qed

lemma strip_marks_close: "strip_marks (mark_close @ x) = strip_marks x"
proof (cases "mark_close @ x")
  case Nil
  with mark_close_nonempty show ?thesis by simp
next
  case (Cons c cs)
  have "prefix mark_close (c # cs)" "\<not> prefix mark_open (c # cs)"
    by (simp_all add: Cons [symmetric] open_not_prefix_close)
  then have "strip_marks (c # cs) = strip_marks (drop (length mark_close) (c # cs))"
    by simp
  then show ?thesis by (simp add: Cons [symmetric])
qed

lemma marked_spans_open:
  "marked_spans_from i opened (mark_open @ x) = marked_spans_from i (Some i) x"
proof (cases "mark_open @ x")
  case Nil
  with mark_open_nonempty show ?thesis by simp
next
  case (Cons c cs)
  have "prefix mark_open (c # cs)" by (simp add: Cons [symmetric])
  then have "marked_spans_from i opened (c # cs)
               = marked_spans_from i (Some i) (drop (length mark_open) (c # cs))"
    by simp
  then show ?thesis by (simp add: Cons [symmetric])
qed

lemma marked_spans_close:
  "marked_spans_from i (Some s) (mark_close @ x) = (s, i) # marked_spans_from i None x"
proof (cases "mark_close @ x")
  case Nil
  with mark_close_nonempty show ?thesis by simp
next
  case (Cons c cs)
  have "prefix mark_close (c # cs)" "\<not> prefix mark_open (c # cs)"
    by (simp_all add: Cons [symmetric] open_not_prefix_close)
  then have "marked_spans_from i (Some s) (c # cs)
               = (s, i) # marked_spans_from i None (drop (length mark_close) (c # cs))"
    by simp
  then show ?thesis by (simp add: Cons [symmetric])
qed

lemma strip_marks_clean:
  "no_marker_starts p q \<Longrightarrow> strip_marks (p @ q) = p @ strip_marks q"
  by (induction p) simp_all

lemma marked_spans_clean:
  "no_marker_starts p q \<Longrightarrow>
     marked_spans_from i opened (p @ q) = marked_spans_from (i + length p) opened q"
  by (induction p arbitrary: i) simp_all

lemma no_marker_starts_no_lt: "CHR ''<'' \<notin> set p \<Longrightarrow> no_marker_starts p q"
proof (induction p)
  case Nil
  show ?case by simp
next
  case (Cons c p)
  from Cons.prems have "c \<noteq> CHR ''<''" by auto
  then have "\<not> prefix mark_open (c # p @ q)" "\<not> prefix mark_close (c # p @ q)"
    by (blast dest: prefix_mark_hd)+
  with Cons show ?case by simp
qed

lemma not_prefix_across:
  assumes tag: "tag = CHR ''<'' # r" "CHR ''<'' \<notin> set r"
    and np: "\<not> prefix tag u" and u: "u \<noteq> []"
    and q: "q = [] \<or> hd q = CHR ''<''"
  shows "\<not> prefix tag (u @ q)"
proof
  assume "prefix tag (u @ q)"
  with np obtain us where us: "tag = u @ us" "prefix us q"
    by (auto simp: prefix_append)
  from us(1) np have "us \<noteq> []" by auto
  with us(2) q have "hd us = CHR ''<''"
    by (cases us; cases q) auto
  with \<open>us \<noteq> []\<close> have "CHR ''<'' \<in> set us" by (cases us) auto
  moreover from u us(1) tag(1) have "set us \<subseteq> set r" by (cases u) auto
  ultimately show False using tag(2) by blast
qed

lemma no_marker_starts_free:
  assumes "\<not> sublist mark_open p" and "\<not> sublist mark_close p"
    and "q = [] \<or> hd q = CHR ''<''"
  shows "no_marker_starts p q"
  using assms(1,2)
proof (induction p)
  case Nil
  show ?case by simp
next
  case (Cons c p)
  obtain r1 r2 where r: "mark_open = CHR ''<'' # r1" "CHR ''<'' \<notin> set r1"
       "mark_close = CHR ''<'' # r2" "CHR ''<'' \<notin> set r2"
    using mark_open_Cons mark_close_Cons by blast
  from Cons.prems have np: "\<not> prefix mark_open (c # p)" "\<not> prefix mark_close (c # p)"
    and ns: "\<not> sublist mark_open p" "\<not> sublist mark_close p"
    by (simp_all add: sublist_Cons_right)
  have "\<not> prefix mark_open ((c # p) @ q)"
    by (rule not_prefix_across [OF r(1,2) np(1) _ assms(3)]) simp
  moreover have "\<not> prefix mark_close ((c # p) @ q)"
    by (rule not_prefix_across [OF r(3,4) np(2) _ assms(3)]) simp
  ultimately show ?case using Cons.IH [OF ns] by simp
qed

lemma slice_join: "a \<le> b \<Longrightarrow> py_slice text a b @ drop b text = drop a text"
proof -
  assume "a \<le> b"
  then have "drop (b - a) (drop a text) = drop b text" by simp
  moreover have "take (b - a) (drop a text) @ drop (b - a) (drop a text) = drop a text"
    by (rule append_take_drop_id)
  ultimately show ?thesis by (simp only: py_slice_def)
qed

lemma length_slice: "b \<le> length text \<Longrightarrow> length (py_slice text a b) = b - a"
  by (simp add: py_slice_def)

lemma not_sublist_drop: "\<not> sublist tag text \<Longrightarrow> \<not> sublist tag (drop a text)"
  using sublist_drop sublist_order.order_trans by blast

lemma not_sublist_slice: "\<not> sublist tag text \<Longrightarrow> \<not> sublist tag (py_slice text a b)"
  unfolding py_slice_def using sublist_take sublist_drop sublist_order.order_trans by blast

lemma hd_mark_open_append: "hd (mark_open @ x) = CHR ''<''"
  by (simp add: mark_open_def)

lemma strip_marks_build:
  assumes free: "\<not> sublist mark_open text" "\<not> sublist mark_close text"
  shows "ordered_spans lo (length text) ps \<Longrightarrow>
         (\<forall>(s, e) \<in> set ps. CHR ''<'' \<notin> set (py_slice text s e)) \<Longrightarrow>
         strip_marks (concat (build_result text lo ps)) = drop lo text"
proof (induction ps arbitrary: lo)
  case Nil
  have "no_marker_starts (drop lo text) []"
    by (rule no_marker_starts_free) (simp_all add: free not_sublist_drop)
  from strip_marks_clean [OF this] show ?case by simp
next
  case (Cons p ps)
  obtain s e where p: "p = (s, e)" by (cases p)
  from Cons.prems(1) p have le: "lo \<le> s" "s < e" and rest: "ordered_spans e (length text) ps"
    by simp_all
  from Cons.prems(2) p have w: "CHR ''<'' \<notin> set (py_slice text s e)"
    and ws: "\<forall>(s, e) \<in> set ps. CHR ''<'' \<notin> set (py_slice text s e)" by simp_all
  let ?R = "concat (build_result text e ps)"
  have R: "strip_marks ?R = drop e text" by (rule Cons.IH [OF rest ws])
  have c1: "no_marker_starts (py_slice text lo s) (mark_open @ py_slice text s e @ mark_close @ ?R)"
    by (rule no_marker_starts_free) (simp_all add: free not_sublist_slice hd_mark_open_append)
  have c2: "no_marker_starts (py_slice text s e) (mark_close @ ?R)"
    by (rule no_marker_starts_no_lt) (rule w)
  have "strip_marks (concat (build_result text lo (p # ps)))
          = strip_marks (py_slice text lo s @ mark_open @ py_slice text s e @ mark_close @ ?R)"
    by (simp add: p)
  also have "\<dots> = py_slice text lo s @ strip_marks (mark_open @ py_slice text s e @ mark_close @ ?R)"
    by (rule strip_marks_clean [OF c1])
  also have "\<dots> = py_slice text lo s @ strip_marks (py_slice text s e @ mark_close @ ?R)"
    by (simp only: strip_marks_open)
  also have "\<dots> = py_slice text lo s @ py_slice text s e @ strip_marks (mark_close @ ?R)"
    by (simp only: strip_marks_clean [OF c2])
  also have "\<dots> = py_slice text lo s @ py_slice text s e @ drop e text"
    by (simp only: strip_marks_close R)
  also have "\<dots> = py_slice text lo s @ drop s text"
    using le(2) by (simp only: slice_join less_imp_le)
  also have "\<dots> = drop lo text"
    using le(1) by (rule slice_join)
  finally show ?case .
qed

lemma marked_spans_build:
  assumes free: "\<not> sublist mark_open text" "\<not> sublist mark_close text"
  shows "ordered_spans lo (length text) ps \<Longrightarrow>
         (\<forall>(s, e) \<in> set ps. CHR ''<'' \<notin> set (py_slice text s e)) \<Longrightarrow>
         marked_spans_from lo None (concat (build_result text lo ps)) = ps"
proof (induction ps arbitrary: lo)
  case Nil
  have "no_marker_starts (drop lo text) []"
    by (rule no_marker_starts_free) (simp_all add: free not_sublist_drop)
  from marked_spans_clean [OF this, of lo None] show ?case by simp
next
  case (Cons p ps)
  obtain s e where p: "p = (s, e)" by (cases p)
  from Cons.prems(1) p have le: "lo \<le> s" "s < e" and rest: "ordered_spans e (length text) ps"
    by simp_all
  from ordered_spans_le [OF rest] le have bound: "s \<le> length text" "e \<le> length text" by simp_all
  from Cons.prems(2) p have w: "CHR ''<'' \<notin> set (py_slice text s e)"
    and ws: "\<forall>(s, e) \<in> set ps. CHR ''<'' \<notin> set (py_slice text s e)" by simp_all
  let ?R = "concat (build_result text e ps)"
  have R: "marked_spans_from e None ?R = ps" by (rule Cons.IH [OF rest ws])
  have c1: "no_marker_starts (py_slice text lo s) (mark_open @ py_slice text s e @ mark_close @ ?R)"
    by (rule no_marker_starts_free) (simp_all add: free not_sublist_slice hd_mark_open_append)
  have c2: "no_marker_starts (py_slice text s e) (mark_close @ ?R)"
    by (rule no_marker_starts_no_lt) (rule w)
  have l1: "lo + length (py_slice text lo s) = s"
    using le(1) bound(1) by (simp add: length_slice)
  have l2: "s + length (py_slice text s e) = e"
    using le(2) bound(2) by (simp add: length_slice)
  have "marked_spans_from lo None (concat (build_result text lo (p # ps)))
          = marked_spans_from lo None
              (py_slice text lo s @ mark_open @ py_slice text s e @ mark_close @ ?R)"
    by (simp add: p)
  also have "\<dots> = marked_spans_from s None (mark_open @ py_slice text s e @ mark_close @ ?R)"
    by (simp only: marked_spans_clean [OF c1] l1)
  also have "\<dots> = marked_spans_from s (Some s) (py_slice text s e @ mark_close @ ?R)"
    by (simp only: marked_spans_open)
  also have "\<dots> = marked_spans_from e (Some s) (mark_close @ ?R)"
    by (simp only: marked_spans_clean [OF c2] l2)
  also have "\<dots> = (s, e) # marked_spans_from e None ?R"
    by (simp only: marked_spans_close)
  also have "\<dots> = p # ps"
    by (simp only: R p)
  finally show ?case .
qed

lemma lt_not_word_char: "\<not> is_word_char CHR ''<''"
  by (simp add: is_word_char_def)

lemma highlighted_spans_no_lt:
  "\<forall>(s, e) \<in> set (highlighted_spans ratio text speaker_name threshold).
      CHR ''<'' \<notin> set (py_slice text s e)"
proof -
  have "CHR ''<'' \<notin> set (py_slice text s e)"
    if "(s, e) \<in> set (highlighted_spans ratio text speaker_name threshold)" for s e
  proof -
    from that have "(s, e) \<in> set (re_finditer text)"
      by (simp add: set_highlighted_spans split: if_splits)
    from re_finditer_word_chars [OF this] lt_not_word_char show ?thesis by blast
  qed
  then show ?thesis by blast
qed

section \<open>Round trip and order of the highlights\<close>

text \<open>
  Claim C1, as the specification states it, fails: a text may hold a marker of its own, and
  stripping all markers from the output removes that one too. For the text
  \<^verbatim>\<open>Jane </mark>\<close> and the name \<^verbatim>\<open>Jane\<close> one span is highlighted and the stripped
  output is \<^verbatim>\<open>Jane \<close> with a blank at its end, not the text.
\<close>

theorem highlight_round_trip_counterexample:
  "highlighted_spans fuzz_ratio ''Jane </mark>'' ''Jane'' 80 = [(0, 4)]
   \<and> highlight_speaker_name fuzz_ratio (Some ''Jane </mark>'') (Some ''Jane'') 80
       = Inr (Some (mark_open @ ''Jane'' @ mark_close @ '' </mark>''))
   \<and> strip_marks (mark_open @ ''Jane'' @ mark_close @ '' </mark>'') \<noteq> ''Jane </mark>''"
  by code_simp

text \<open>
  Claim C1, amended. For every text that holds neither the opening nor the closing marker,
  every name and every threshold, stripping the markers from the output gives the text,
  and the marked regions of the output, read from left to right, are the highlighted
  spans at their offsets in the text, in ascending order and apart from each other. This
  holds whether or not a span is highlighted.
\<close>

theorem highlight_round_trip:
  assumes "\<not> sublist mark_open text" and "\<not> sublist mark_close text"
  shows "\<exists>out. highlight_speaker_name ratio (Some text) (Some speaker_name) threshold
                  = Inr (Some out)
           \<and> strip_marks out = text
           \<and> marked_spans out = highlighted_spans ratio text speaker_name threshold
           \<and> sorted_wrt (\<lambda>p q. snd p \<le> fst q)
                (highlighted_spans ratio text speaker_name threshold)"
proof -
  let ?ps = "highlighted_spans ratio text speaker_name threshold"
  let ?out = "concat (build_result text 0 ?ps)"
  have ord: "ordered_spans 0 (length text) ?ps" by (rule ordered_highlighted_spans)
  have "highlight_speaker_name ratio (Some text) (Some speaker_name) threshold = Inr (Some ?out)"
  proof (cases "text = [] \<or> speaker_name = []")
    case True
    then show ?thesis
      by (auto simp: highlight_speaker_name_def highlighted_spans_def)
  next
    case False
    then show ?thesis by (simp add: highlight_by_spans)
  qed
  moreover have "strip_marks ?out = text"
    using strip_marks_build [OF assms ord highlighted_spans_no_lt] by simp
  moreover have "marked_spans ?out = ?ps"
    unfolding marked_spans_def by (rule marked_spans_build [OF assms ord highlighted_spans_no_lt])
  moreover have "sorted_wrt (\<lambda>p q. snd p \<le> fst q) ?ps"
    using ordered_spans_props [OF ord] by simp
  ultimately show ?thesis by blast
qed

theorem highlight_round_trip_witness:
  "\<not> sublist mark_open ''Jane Doe was here'' \<and> \<not> sublist mark_close ''Jane Doe was here''
   \<and> (\<exists>out. highlight_speaker_name fuzz_ratio (Some ''Jane Doe was here'') (Some ''Jane Doe'') 80
                = Inr (Some out)
          \<and> strip_marks out = ''Jane Doe was here''
          \<and> marked_spans out = [(0, 4), (5, 8)])"
proof -
  have free: "\<not> sublist mark_open ''Jane Doe was here''" "\<not> sublist mark_close ''Jane Doe was here''"
    by code_simp+
  have spans: "highlighted_spans fuzz_ratio ''Jane Doe was here'' ''Jane Doe'' 80 = [(0, 4), (5, 8)]"
    by code_simp
  from highlight_round_trip [OF free, of fuzz_ratio "''Jane Doe''" 80] free spans
  show ?thesis by simp
qed

section \<open>Which words are highlighted\<close>

text \<open>
  Claim C2. A word of the text that is not a stopword is compared, in lower case, with
  the names of the list that begins with the full speaker name and goes on with the parts
  of the name in their order; the loop leaves at the first name whose score reaches the
  threshold, so the span of the word is recorded exactly when some name of that list
  reaches the threshold, and not otherwise. A part of the name is enough: in
  \<^verbatim>\<open>Mr. Smith responded\<close> with the name \<^verbatim>\<open>John Smith\<close> and threshold 80, the word
  \<^verbatim>\<open>Smith\<close> is highlighted.
\<close>

theorem highlight_word_matching:
  assumes "text \<noteq> []" and "speaker_name \<noteq> []"
    and "(s, e) \<in> set (re_finditer text)"
    and "str_lower (py_slice text s e) \<notin> STOPWORDS"
  shows "(s, e) \<in> set (highlighted_spans ratio text speaker_name threshold)
           \<longleftrightarrow> (\<exists>name \<in> set (speaker_name # str_split speaker_name).
                  of_int threshold \<le> ratio (str_lower (py_slice text s e)) (str_lower name))"
  using assms by (simp add: set_highlighted_spans)

theorem highlight_word_matching_witness:
  "(4, 9) \<in> set (re_finditer ''Mr. Smith responded'')
   \<and> str_lower (py_slice ''Mr. Smith responded'' 4 9) \<notin> STOPWORDS
   \<and> (4, 9) \<in> set (highlighted_spans fuzz_ratio ''Mr. Smith responded'' ''John Smith'' 80)
   \<and> (\<exists>name \<in> set (''John Smith'' # str_split ''John Smith'').
         of_int 80 \<le> fuzz_ratio (str_lower (py_slice ''Mr. Smith responded'' 4 9)) (str_lower name))
   \<and> highlight_speaker_name fuzz_ratio (Some ''Mr. Smith responded'') (Some ''John Smith'') 80
       = Inr (Some (''Mr. '' @ mark_open @ ''Smith'' @ mark_close @ '' responded''))"
proof -
  have w: "(4, 9) \<in> set (re_finditer ''Mr. Smith responded'')"
    by code_simp
  have ns: "str_lower (py_slice ''Mr. Smith responded'' 4 9) \<notin> STOPWORDS"
    by code_simp
  have m: "(4, 9) \<in> set (highlighted_spans fuzz_ratio ''Mr. Smith responded'' ''John Smith'' 80)"
    by code_simp
  have out: "highlight_speaker_name fuzz_ratio (Some ''Mr. Smith responded'') (Some ''John Smith'') 80
       = Inr (Some (''Mr. '' @ mark_open @ ''Smith'' @ mark_close @ '' responded''))"
    by code_simp
  from highlight_word_matching [OF _ _ w ns, of "''John Smith''" fuzz_ratio 80] m
  have "\<exists>name \<in> set (''John Smith'' # str_split ''John Smith'').
         of_int 80 \<le> fuzz_ratio (str_lower (py_slice ''Mr. Smith responded'' 4 9)) (str_lower name)"
    by simp
  with w ns m out show ?thesis by blast
qed

text \<open>
  Claim C3. For a fixed text and name and thresholds \<open>t1 < t2\<close>, every span highlighted
  at \<open>t2\<close> is highlighted at \<open>t1\<close>.
\<close>

theorem highlight_threshold_monotone:
  "t1 < t2 \<Longrightarrow>
     set (highlighted_spans ratio text speaker_name t2)
       \<subseteq> set (highlighted_spans ratio text speaker_name t1)"
proof -
  assume "t1 < t2"
  then have "(of_int t1 :: rat) \<le> of_int t2" by simp
  then have "\<And>x :: rat. of_int t2 \<le> x \<Longrightarrow> of_int t1 \<le> x" by (rule order_trans)
  then show ?thesis by (auto simp: set_highlighted_spans)
qed

theorem highlight_threshold_monotone_witness:
  "(80 :: int) < 90
   \<and> set (highlighted_spans fuzz_ratio ''Mr. Smyth responded'' ''John Smith'' 90)
       \<subseteq> set (highlighted_spans fuzz_ratio ''Mr. Smyth responded'' ''John Smith'' 80)
   \<and> highlighted_spans fuzz_ratio ''Mr. Smyth responded'' ''John Smith'' 80 = [(4, 9)]
   \<and> highlighted_spans fuzz_ratio ''Mr. Smyth responded'' ''John Smith'' 90 = []"
proof -
  have "highlighted_spans fuzz_ratio ''Mr. Smyth responded'' ''John Smith'' 80 = [(4, 9)]"
    by code_simp
  moreover have "highlighted_spans fuzz_ratio ''Mr. Smyth responded'' ''John Smith'' 90 = []"
    by code_simp
  ultimately show ?thesis
    using highlight_threshold_monotone [of 80 90 fuzz_ratio "''Mr. Smyth responded''" "''John Smith''"]
    by simp
qed

text \<open>
  Claim C5. Every highlighted span is a word of the text, and a word whose lower case
  form is a stopword is never highlighted, whatever the scoring function returns for it.
  In \<^verbatim>\<open>In the meeting, Ann spoke\<close> with the name \<^verbatim>\<open>Ann\<close>, even at threshold 0, where
  every other word is highlighted, \<^verbatim>\<open>In\<close> and \<^verbatim>\<open>the\<close> are not.
\<close>

theorem stopwords_never_highlighted:
  "set (highlighted_spans ratio text speaker_name threshold) \<subseteq> set (re_finditer text)
   \<and> (\<forall>(s, e) \<in> set (re_finditer text).
         str_lower (py_slice text s e) \<in> STOPWORDS \<longrightarrow>
         (s, e) \<notin> set (highlighted_spans ratio text speaker_name threshold))"
  by (auto simp: set_highlighted_spans split: if_splits)

theorem stopwords_never_highlighted_witness:
  "re_finditer ''In the meeting, Ann spoke'' = [(0, 2), (3, 6), (7, 14), (16, 19), (20, 25)]
   \<and> str_lower (py_slice ''In the meeting, Ann spoke'' 0 2) \<in> STOPWORDS
   \<and> str_lower (py_slice ''In the meeting, Ann spoke'' 3 6) \<in> STOPWORDS
   \<and> (0, 2) \<notin> set (highlighted_spans fuzz_ratio ''In the meeting, Ann spoke'' ''Ann'' 0)
   \<and> (3, 6) \<notin> set (highlighted_spans fuzz_ratio ''In the meeting, Ann spoke'' ''Ann'' 0)
   \<and> highlighted_spans fuzz_ratio ''In the meeting, Ann spoke'' ''Ann'' 0
       = [(7, 14), (16, 19), (20, 25)]
   \<and> highlighted_spans fuzz_ratio ''In the meeting, Ann spoke'' ''Ann'' 80 = [(16, 19)]"
proof -
  have w: "re_finditer ''In the meeting, Ann spoke'' = [(0, 2), (3, 6), (7, 14), (16, 19), (20, 25)]"
    by code_simp
  have s1: "str_lower (py_slice ''In the meeting, Ann spoke'' 0 2) \<in> STOPWORDS"
    by code_simp
  have s2: "str_lower (py_slice ''In the meeting, Ann spoke'' 3 6) \<in> STOPWORDS"
    by code_simp
  have h0: "highlighted_spans fuzz_ratio ''In the meeting, Ann spoke'' ''Ann'' 0
       = [(7, 14), (16, 19), (20, 25)]"
    by code_simp
  have h80: "highlighted_spans fuzz_ratio ''In the meeting, Ann spoke'' ''Ann'' 80 = [(16, 19)]"
    by code_simp
  from stopwords_never_highlighted [of fuzz_ratio "''In the meeting, Ann spoke''" "''Ann''" 0] w s1 s2
  have "(0, 2) \<notin> set (highlighted_spans fuzz_ratio ''In the meeting, Ann spoke'' ''Ann'' 0)"
    and "(3, 6) \<notin> set (highlighted_spans fuzz_ratio ''In the meeting, Ann spoke'' ''Ann'' 0)"
    by simp_all
  with w s1 s2 h0 h80 show ?thesis by blast
qed

text \<open>
  Claim C7, as the specification states it, fails: a word equal to a part of the name is
  skipped when it is a stopword. In \<^verbatim>\<open>Will Smith spoke\<close> with the name
  \<^verbatim>\<open>Will Smith\<close> and threshold 80, the word \<^verbatim>\<open>Will\<close> is a part of the name and is
  not highlighted.
\<close>

theorem exact_name_part_counterexample:
  "(0, 4) \<in> set (re_finditer ''Will Smith spoke'')
   \<and> py_slice ''Will Smith spoke'' 0 4 \<in> set (str_split ''Will Smith'')
   \<and> (80 :: int) \<le> 100
   \<and> (0, 4) \<notin> set (highlighted_spans fuzz_ratio ''Will Smith spoke'' ''Will Smith'' 80)"
  by code_simp

text \<open>
  Claim C7, amended. Strings that are equal in lower case score 100 under the Indel ratio,
  and under every scoring function that gives 100 to equal strings a word that is not a
  stopword and equals a part of the name, case ignored, is highlighted at every
  threshold up to 100. In \<^verbatim>\<open>Jane Doe was here\<close> with the name \<^verbatim>\<open>Jane Doe\<close> and
  threshold 80 the highlighted spans are those of \<^verbatim>\<open>Jane\<close> and \<^verbatim>\<open>Doe\<close> and no other.
\<close>

theorem exact_name_part_highlighted:
  assumes "(s, e) \<in> set (re_finditer text)"
    and "name \<in> set (str_split speaker_name)"
    and "str_lower (py_slice text s e) = str_lower name"
    and "str_lower (py_slice text s e) \<notin> STOPWORDS"
    and "threshold \<le> 100"
  shows "fuzz_ratio (str_lower (py_slice text s e)) (str_lower name) = 100
         \<and> ((\<forall>x. ratio x x = 100) \<longrightarrow>
              (s, e) \<in> set (highlighted_spans ratio text speaker_name threshold))"
proof (intro conjI impI)
  show "fuzz_ratio (str_lower (py_slice text s e)) (str_lower name) = 100"
    by (simp add: assms(3) fuzz_ratio_same)
next
  assume same: "\<forall>x. ratio x x = 100"
  from assms(1) have t: "text \<noteq> []" by (auto simp: re_finditer_Nil)
  from assms(2) have n: "speaker_name \<noteq> []" by (auto simp: str_split_Nil)
  from same have r: "ratio (str_lower (py_slice text s e)) (str_lower name) = 100"
    by (simp add: assms(3))
  from assms(5) have "(of_int threshold :: rat) \<le> of_int 100"
    by (simp only: of_int_le_iff)
  then have "(of_int threshold :: rat) \<le> 100" by simp
  with r have "of_int threshold \<le> ratio (str_lower (py_slice text s e)) (str_lower name)"
    by simp
  with assms(2) have "\<exists>name \<in> set (speaker_name # str_split speaker_name).
      of_int threshold \<le> ratio (str_lower (py_slice text s e)) (str_lower name)"
    by auto
  with t n assms(1,4) show "(s, e) \<in> set (highlighted_spans ratio text speaker_name threshold)"
    by (simp add: set_highlighted_spans)
qed

theorem exact_name_part_highlighted_witness:
  "(0, 4) \<in> set (re_finditer ''Jane Doe was here'')
   \<and> ''Jane'' \<in> set (str_split ''Jane Doe'')
   \<and> str_lower (py_slice ''Jane Doe was here'' 0 4) = str_lower ''Jane''
   \<and> str_lower (py_slice ''Jane Doe was here'' 0 4) \<notin> STOPWORDS
   \<and> (80 :: int) \<le> 100
   \<and> fuzz_ratio (str_lower (py_slice ''Jane Doe was here'' 0 4)) (str_lower ''Jane'') = 100
   \<and> (0, 4) \<in> set (highlighted_spans fuzz_ratio ''Jane Doe was here'' ''Jane Doe'' 80)
   \<and> highlighted_spans fuzz_ratio ''Jane Doe was here'' ''Jane Doe'' 80 = [(0, 4), (5, 8)]
   \<and> re_finditer ''Jane Doe was here'' = [(0, 4), (5, 8), (9, 12), (13, 17)]"
proof -
  have a1: "(0, 4) \<in> set (re_finditer ''Jane Doe was here'')" by code_simp
  have a2: "''Jane'' \<in> set (str_split ''Jane Doe'')" by code_simp
  have a3: "str_lower (py_slice ''Jane Doe was here'' 0 4) = str_lower ''Jane''" by code_simp
  have a4: "str_lower (py_slice ''Jane Doe was here'' 0 4) \<notin> STOPWORDS" by code_simp
  have a5: "(80 :: int) \<le> 100" by simp
  have sp: "highlighted_spans fuzz_ratio ''Jane Doe was here'' ''Jane Doe'' 80 = [(0, 4), (5, 8)]"
    by code_simp
  have ws: "re_finditer ''Jane Doe was here'' = [(0, 4), (5, 8), (9, 12), (13, 17)]"
    by code_simp
  have same: "\<forall>x. fuzz_ratio x x = 100" by (simp add: fuzz_ratio_same)
  from exact_name_part_highlighted [OF a1 a2 a3 a4 a5, of fuzz_ratio] same a1 a2 a3 a4 a5 sp ws
  show ?thesis by blast
qed

text \<open>
  Claim C8. When no word produces a span, the call returns the text as it is, with no
  marker and no error, as for \<^verbatim>\<open>Completely unrelated text\<close> with the name
  \<^verbatim>\<open>Zyxwvq\<close> and threshold 90.
\<close>

theorem highlight_no_match:
  "highlighted_spans ratio text speaker_name threshold = [] \<Longrightarrow>
     highlight_speaker_name ratio (Some text) (Some speaker_name) threshold = Inr (Some text)"
  by (auto simp: highlight_speaker_name_def highlight_text_def highlighted_spans_def
        sort_remdups_Nil_iff Let_def)

theorem highlight_no_match_witness:
  "highlighted_spans fuzz_ratio ''Completely unrelated text'' ''Zyxwvq'' 90 = []
   \<and> highlight_speaker_name fuzz_ratio (Some ''Completely unrelated text'') (Some ''Zyxwvq'') 90
       = Inr (Some ''Completely unrelated text'')"
proof -
  have e: "highlighted_spans fuzz_ratio ''Completely unrelated text'' ''Zyxwvq'' 90 = []"
    by code_simp
  from highlight_no_match [OF e] e show ?thesis by simp
qed

section \<open>Keys of the feedback store\<close>

text \<open>The field of a comment differs from the field of its summary type, and distinct row
  indices have distinct keys: the decimal form of an integer determines it.\<close>

lemma comment_key_neq:
  "comment_key summary_type \<noteq> summary_type"
  "summary_type \<noteq> comment_key summary_type"
  by (simp_all add: comment_key_def)

lemma digit_char_inj: "a < 10 \<Longrightarrow> b < 10 \<Longrightarrow> digit_char a = digit_char b \<Longrightarrow> a = b"
proof -
  assume a: "a < 10" and b: "b < 10" and e: "digit_char a = digit_char b"
  from e have "of_char (digit_char a) = (of_char (digit_char b) :: nat)" by simp
  with a b show "a = b" by (simp add: digit_char_def)
qed

lemma digit_char_not_minus: "d < 10 \<Longrightarrow> digit_char d \<noteq> CHR ''-''"
proof
  assume d: "d < 10" and e: "digit_char d = CHR ''-''"
  from e have "of_char (digit_char d) = (of_char CHR ''-'' :: nat)" by simp
  with d show False by (simp add: digit_char_def)
qed

lemma str_nat_nonempty: "str_nat n \<noteq> []"
  by (subst str_nat.simps) simp

lemma str_nat_inj: "str_nat n = str_nat m \<Longrightarrow> n = m"
proof (induction n arbitrary: m rule: str_nat.induct)
  case (1 n)
  show ?case
  proof (cases "n < 10")
    case True
    then have n: "str_nat n = [digit_char n]" by (subst str_nat.simps) simp
    show ?thesis
    proof (cases "m < 10")
      case mt: True
      then have "str_nat m = [digit_char m]" by (subst str_nat.simps) simp
      with n 1(2) True mt show ?thesis by (simp add: digit_char_inj)
    next
      case False
      then have "str_nat m = str_nat (m div 10) @ [digit_char (m mod 10)]"
        by (subst str_nat.simps) simp
      with n 1(2) str_nat_nonempty [of "m div 10"] show ?thesis by simp
    qed
  next
    case False
    then have n: "str_nat n = str_nat (n div 10) @ [digit_char (n mod 10)]"
      by (subst str_nat.simps) simp
    show ?thesis
    proof (cases "m < 10")
      case True
      then have "str_nat m = [digit_char m]" by (subst str_nat.simps) simp
      with n 1(2) str_nat_nonempty [of "n div 10"] show ?thesis by simp
    next
      case mf: False
      then have "str_nat m = str_nat (m div 10) @ [digit_char (m mod 10)]"
        by (subst str_nat.simps) simp
      with n 1(2) have e: "str_nat (n div 10) = str_nat (m div 10)"
        and d: "digit_char (n mod 10) = digit_char (m mod 10)" by simp_all
      from 1(1) [OF False e] have "n div 10 = m div 10" .
      moreover from d have "n mod 10 = m mod 10" by (simp add: digit_char_inj)
      ultimately show ?thesis by (metis div_mult_mod_eq)
    qed
  qed
qed

lemma hd_str_nat_not_minus: "hd (str_nat n) \<noteq> CHR ''-''"
proof (induction n rule: str_nat.induct)
  case (1 n)
  show ?case
  proof (cases "n < 10")
    case True
    then have "str_nat n = [digit_char n]" by (subst str_nat.simps) simp
    with True show ?thesis by (simp add: digit_char_not_minus)
  next
    case False
    then have "str_nat n = str_nat (n div 10) @ [digit_char (n mod 10)]"
      by (subst str_nat.simps) simp
    with 1 [OF False] str_nat_nonempty [of "n div 10"] show ?thesis by simp
  qed
qed

lemma str_int_inj: "str_int i = str_int j \<Longrightarrow> i = j"
proof -
  assume e: "str_int i = str_int j"
  have neq: "CHR ''-'' # s \<noteq> str_nat n" for s n
    using hd_str_nat_not_minus [of n] by (cases "str_nat n") auto
  show "i = j"
  proof (cases "i < 0"; cases "j < 0")
    assume "i < 0" "j < 0"
    with e have "nat (- i) = nat (- j)" by (simp add: str_int_def str_nat_inj)
    with \<open>i < 0\<close> \<open>j < 0\<close> show ?thesis by simp
  next
    assume "i < 0" "\<not> j < 0"
    with e neq show ?thesis by (simp add: str_int_def)
  next
    assume "\<not> i < 0" "j < 0"
    with e neq [symmetric] show ?thesis by (simp add: str_int_def)
  next
    assume "\<not> i < 0" "\<not> j < 0"
    with e have "nat i = nat j" by (simp add: str_int_def str_nat_inj)
    with \<open>\<not> i < 0\<close> \<open>\<not> j < 0\<close> show ?thesis by simp
  qed
qed

lemma row_key_inj: "row_key r = row_key r' \<longleftrightarrow> r = r'"
  by (auto simp: row_key_def dest: str_int_inj)

lemma load_record_feedback:
  "load_feedback (record_feedback file row_index summary_type feedback_value None)
     = (load_feedback file)(row_key row_index \<mapsto>
          (case load_feedback file (row_key row_index) of None \<Rightarrow> Map.empty | Some r \<Rightarrow> r)
            (summary_type \<mapsto> JBool (feedback_value = ''up'')))"
  by (simp add: record_feedback_def load_feedback_def save_feedback_def Let_def)

section \<open>Saving a comment\<close>

text \<open>
  Claim C9. When no feedback is stored for a row and a summary type and the comment
  entered differs from the stored one, saving the comment stores the feedback value
  \<open>True\<close>, that is \<^verbatim>\<open>up\<close>, together with the comment.
\<close>

theorem comment_defaults_to_up:
  assumes "get_feedback file row_index summary_type = None"
    and "JStr entered \<noteq> get_comment file row_index summary_type"
  shows "get_feedback (main_save_comment file row_index summary_type entered)
           row_index summary_type = Some (JBool True)
         \<and> get_comment (main_save_comment file row_index summary_type entered)
             row_index summary_type = JStr entered"
  using assms
  by (simp add: main_save_comment_def record_feedback_def get_feedback_def get_comment_def
        load_feedback_def save_feedback_def comment_key_neq Let_def)

theorem comment_defaults_to_up_witness:
  "get_feedback None 0 ''issue'' = None
   \<and> JStr ''unclear'' \<noteq> get_comment None 0 ''issue''
   \<and> get_feedback (main_save_comment None 0 ''issue'' ''unclear'') 0 ''issue'' = Some (JBool True)
   \<and> get_comment (main_save_comment None 0 ''issue'' ''unclear'') 0 ''issue'' = JStr ''unclear''"
proof -
  have a: "get_feedback None 0 ''issue'' = None"
    by (simp add: get_feedback_def load_feedback_def)
  have b: "JStr ''unclear'' \<noteq> get_comment None 0 ''issue''"
    by (simp add: get_comment_def load_feedback_def)
  from comment_defaults_to_up [OF a b] a b show ?thesis by simp
qed

section \<open>What recording a feedback value leaves alone\<close>

text \<open>
  Claim C10, as stated for every summary type, fails: the comment of a summary type
  is stored in the same row under the name of the type followed by \<^verbatim>\<open>_comment\<close>, and
  a summary type of that very name overwrites it. After a comment on \<^verbatim>\<open>issue\<close> is
  saved, recording feedback for the summary type \<^verbatim>\<open>issue_comment\<close> replaces the
  comment of \<^verbatim>\<open>issue\<close> by a boolean.
\<close>

theorem record_feedback_frame_counterexample:
  "''issue'' \<noteq> ''issue_comment''
   \<and> get_comment (record_feedback None 0 ''issue'' ''up'' (Some ''unclear'')) 0 ''issue''
       = JStr ''unclear''
   \<and> get_comment
        (record_feedback (record_feedback None 0 ''issue'' ''up'' (Some ''unclear''))
           0 ''issue_comment'' ''down'' None) 0 ''issue''
       = JBool False"
  by (simp add: record_feedback_def get_comment_def load_feedback_def save_feedback_def
        comment_key_def Let_def)

text \<open>
  Claim C10, amended. Called without a comment, \<^verbatim>\<open>record_feedback\<close> leaves alone: the
  stored comment of its own row and summary type; the feedback value of every other
  summary type of the row; the comment of every summary type of the row whose comment
  field is not named by the summary type given (so those of the four summary types of
  the tool); every feedback value and comment of every other row; and the whole row under
  every other key of the store.
\<close>

theorem record_feedback_frame:
  "get_comment (record_feedback file row_index summary_type feedback_value None)
       row_index summary_type
     = get_comment file row_index summary_type
   \<and> (\<forall>s'. s' \<noteq> summary_type \<longrightarrow>
          get_feedback (record_feedback file row_index summary_type feedback_value None)
              row_index s'
            = get_feedback file row_index s')
   \<and> (\<forall>s'. comment_key s' \<noteq> summary_type \<longrightarrow>
          get_comment (record_feedback file row_index summary_type feedback_value None)
              row_index s'
            = get_comment file row_index s')
   \<and> (\<forall>r' s'. r' \<noteq> row_index \<longrightarrow>
          get_feedback (record_feedback file row_index summary_type feedback_value None) r' s'
            = get_feedback file r' s'
          \<and> get_comment (record_feedback file row_index summary_type feedback_value None) r' s'
            = get_comment file r' s')
   \<and> (\<forall>key. key \<noteq> row_key row_index \<longrightarrow>
          load_feedback (record_feedback file row_index summary_type feedback_value None) key
            = load_feedback file key)"
proof (intro conjI allI impI)
  show "get_comment (record_feedback file row_index summary_type feedback_value None)
          row_index summary_type
        = get_comment file row_index summary_type"
    by (simp add: get_comment_def load_record_feedback comment_key_neq split: option.splits)
next
  fix s' assume "s' \<noteq> summary_type"
  then show "get_feedback (record_feedback file row_index summary_type feedback_value None)
               row_index s'
             = get_feedback file row_index s'"
    by (simp add: get_feedback_def load_record_feedback split: option.splits)
next
  fix s' assume "comment_key s' \<noteq> summary_type"
  then show "get_comment (record_feedback file row_index summary_type feedback_value None)
               row_index s'
             = get_comment file row_index s'"
    by (simp add: get_comment_def load_record_feedback split: option.splits)
next
  fix r' s' assume "r' \<noteq> row_index"
  then show "get_feedback (record_feedback file row_index summary_type feedback_value None) r' s'
               = get_feedback file r' s'"
    by (simp add: get_feedback_def load_record_feedback row_key_inj)
next
  fix r' s' assume "r' \<noteq> row_index"
  then show "get_comment (record_feedback file row_index summary_type feedback_value None) r' s'
               = get_comment file r' s'"
    by (simp add: get_comment_def load_record_feedback row_key_inj)
next
  fix key assume "key \<noteq> row_key row_index"
  then show "load_feedback (record_feedback file row_index summary_type feedback_value None) key
               = load_feedback file key"
    by (simp add: load_record_feedback)
qed

theorem record_feedback_frame_witness:
  "get_comment
      (record_feedback (record_feedback None 0 ''issue'' ''up'' (Some ''unclear''))
         0 ''issue'' ''down'' None) 0 ''issue''
     = JStr ''unclear''
   \<and> get_feedback
      (record_feedback (record_feedback None 0 ''issue'' ''up'' (Some ''unclear''))
         0 ''issue'' ''down'' None) 0 ''issue''
     = Some (JBool False)
   \<and> get_feedback
      (record_feedback (record_feedback None 0 ''issue'' ''up'' (Some ''unclear''))
         0 ''position'' ''down'' None) 0 ''issue''
     = Some (JBool True)
   \<and> get_comment
      (record_feedback (record_feedback None 0 ''issue'' ''up'' (Some ''unclear''))
         0 ''position'' ''down'' None) 0 ''issue''
     = JStr ''unclear''
   \<and> get_feedback
      (record_feedback (record_feedback None 0 ''issue'' ''up'' (Some ''unclear''))
         1 ''issue'' ''down'' None) 0 ''issue''
     = Some (JBool True)"
proof -
  let ?F = "record_feedback None 0 ''issue'' ''up'' (Some ''unclear'')"
  have c: "get_comment ?F 0 ''issue'' = JStr ''unclear''"
    by (simp add: record_feedback_def get_comment_def load_feedback_def save_feedback_def
          comment_key_def Let_def)
  have f: "get_feedback ?F 0 ''issue'' = Some (JBool True)"
    by (simp add: record_feedback_def get_feedback_def load_feedback_def save_feedback_def
          comment_key_def Let_def)
  have d: "get_feedback (record_feedback ?F 0 ''issue'' ''down'' None) 0 ''issue''
             = Some (JBool False)"
    by (simp add: get_feedback_def load_record_feedback)
  from record_feedback_frame [of ?F 0 "''issue''" "''down''"] c
  have 1: "get_comment (record_feedback ?F 0 ''issue'' ''down'' None) 0 ''issue'' = JStr ''unclear''"
    by simp
  from record_feedback_frame [of ?F 0 "''position''" "''down''"] c f
  have 2: "get_feedback (record_feedback ?F 0 ''position'' ''down'' None) 0 ''issue''
             = Some (JBool True)"
    and 3: "get_comment (record_feedback ?F 0 ''position'' ''down'' None) 0 ''issue''
             = JStr ''unclear''"
    by (simp_all add: comment_key_def)
  from record_feedback_frame [of ?F 1 "''issue''" "''down''"] f
  have 4: "get_feedback (record_feedback ?F 1 ''issue'' ''down'' None) 0 ''issue''
             = Some (JBool True)"
    by simp
  from 1 d 2 3 4 show ?thesis by blast
qed

end
